theory Spec2Isabelle
  imports Main "HOL-Library.Word"
begin

unbundle bit_operations_syntax

section \<open>Data model\<close>

text \<open>
  A JavaScript string is a finite sequence of 16-bit code units, so strings are lists of
  16-bit words. \<open>js\<close> turns an ASCII literal into such a string.
\<close>

type_synonym code_unit = "16 word"
type_synonym jstring = "code_unit list"

definition js :: "string \<Rightarrow> jstring" where
  "js s = map of_char s"

text \<open>
  The todo item, as declared in \<^verbatim>\<open>App.tsx\<close>:
  \<^verbatim>\<open>export type Todo = { id: string; title: string; completed: boolean };\<close>
  The field \<^verbatim>\<open>id\<close> is called \<open>id_todo\<close> here, \<open>id\<close> being the identity function of HOL.
\<close>

record Todo =
  id_todo :: jstring
  title :: jstring
  completed :: bool

section \<open>JSON values and \<^verbatim>\<open>JSON.parse\<close>\<close>

text \<open>
  \<^verbatim>\<open>JSON.parse\<close> and \<^verbatim>\<open>JSON.stringify\<close> are built-ins of the JavaScript platform. They are
  modelled after ECMA-262 (sections 25.5.1 and 25.5.2) and the JSON grammar of RFC 8259.

  A parsed value is \<^verbatim>\<open>null\<close>, a boolean, a number, a string, an array, or an object whose
  own properties are kept in the order in which JavaScript enumerates them. A number is
  kept as the literal that denotes it: its rounding to a double is not modelled, and no
  statement below depends on the value of a number.
\<close>

datatype json =
    JNull
  | JBool bool
  | JNumber jstring
  | JString jstring
  | JArray "json list"
  | JObject "(jstring \<times> json) list"

datatype js_error = SyntaxError

text \<open>
  The result of a parsing function: the value read together with the rest of the input,
  a syntax error, or exhaustion of the recursion budget (which \<open>JSON_parse\<close> below never
  reaches, see \<open>JSON_parse_fuel\<close>).
\<close>

datatype 'a parsed = Ok 'a jstring | Fail | OutOfFuel

text \<open>JSON white space: space, tab, line feed, carriage return.\<close>

definition is_json_ws :: "code_unit \<Rightarrow> bool" where
  "is_json_ws c = (c = 0x20 \<or> c = 0x09 \<or> c = 0x0A \<or> c = 0x0D)"

definition skip_ws :: "jstring \<Rightarrow> jstring" where
  "skip_ws s = dropWhile is_json_ws s"

subsection \<open>String literals\<close>

text \<open>The value of a hexadecimal digit \<^verbatim>\<open>0-9\<close>, \<^verbatim>\<open>a-f\<close>, \<^verbatim>\<open>A-F\<close>.\<close>

definition hex_val :: "code_unit \<Rightarrow> code_unit option" where
  "hex_val c =
     (if 0x30 \<le> c \<and> c \<le> 0x39 then Some (c - 0x30)
      else if 0x61 \<le> c \<and> c \<le> 0x66 then Some (c - 0x57)
      else if 0x41 \<le> c \<and> c \<le> 0x46 then Some (c - 0x37)
      else None)"

definition hex4 :: "code_unit \<Rightarrow> code_unit \<Rightarrow> code_unit \<Rightarrow> code_unit \<Rightarrow> code_unit option" where
  "hex4 h1 h2 h3 h4 =
     (case (hex_val h1, hex_val h2, hex_val h3, hex_val h4) of
        (Some a, Some b, Some c, Some d) \<Rightarrow>
          Some (push_bit 12 a OR push_bit 8 b OR push_bit 4 c OR d)
      | _ \<Rightarrow> None)"

text \<open>
  The single-character escapes: a backslash followed by a double quote, a backslash, a
  slash, or one of the letters \<^verbatim>\<open>b f n r t\<close>.
\<close>

definition unescape :: "code_unit \<Rightarrow> code_unit option" where
  "unescape e =
     (if e = 0x22 then Some 0x22
      else if e = 0x5C then Some 0x5C
      else if e = 0x2F then Some 0x2F
      else if e = 0x62 then Some 0x08
      else if e = 0x66 then Some 0x0C
      else if e = 0x6E then Some 0x0A
      else if e = 0x72 then Some 0x0D
      else if e = 0x74 then Some 0x09
      else None)"

definition consP :: "code_unit \<Rightarrow> (jstring \<times> jstring) option \<Rightarrow> (jstring \<times> jstring) option" where
  "consP u p = (case p of None \<Rightarrow> None | Some (str, r) \<Rightarrow> Some (u # str, r))"

text \<open>
  \<open>parse_chars\<close> reads the characters of a string literal after its opening quote, up to
  and including the closing quote (\<open>0x22\<close>). A backslash (\<open>0x5C\<close>) starts an escape;
  a code unit below \<open>0x20\<close> is not allowed unescaped.
\<close>

fun parse_chars :: "jstring \<Rightarrow> (jstring \<times> jstring) option" where
  "parse_chars [] = None"
| "parse_chars (c # cs) =
     (if c = 0x22 then Some ([], cs)
      else if c = 0x5C then
        (case cs of
           [] \<Rightarrow> None
         | e # es \<Rightarrow>
             if e = 0x75 then
               (case es of
                  h1 # h2 # h3 # h4 # r \<Rightarrow>
                    (case hex4 h1 h2 h3 h4 of
                       None \<Rightarrow> None
                     | Some u \<Rightarrow> consP u (parse_chars r))
                | _ \<Rightarrow> None)
             else
               (case unescape e of
                  None \<Rightarrow> None
                | Some u \<Rightarrow> consP u (parse_chars es)))
      else if c < 0x20 then None
      else consP c (parse_chars cs))"

subsection \<open>Number literals\<close>

text \<open>
  \<^verbatim>\<open>number = [ "-" ] int [ "." 1*DIGIT ] [ ("e" / "E") [ "+" / "-" ] 1*DIGIT ]\<close>, where
  \<^verbatim>\<open>int\<close> is \<^verbatim>\<open>0\<close> or a digit sequence that does not start with \<^verbatim>\<open>0\<close>.
\<close>

definition is_digit :: "code_unit \<Rightarrow> bool" where
  "is_digit c = (0x30 \<le> c \<and> c \<le> 0x39)"

definition parse_digits1 :: "jstring \<Rightarrow> (jstring \<times> jstring) option" where
  "parse_digits1 s =
     (if takeWhile is_digit s = [] then None
      else Some (takeWhile is_digit s, dropWhile is_digit s))"

definition parse_int :: "jstring \<Rightarrow> (jstring \<times> jstring) option" where
  "parse_int s =
     (case s of
        [] \<Rightarrow> None
      | c # r \<Rightarrow>
          if c = 0x30 then Some ([c], r)
          else if is_digit c then Some (c # takeWhile is_digit r, dropWhile is_digit r)
          else None)"

definition parse_frac :: "jstring \<Rightarrow> (jstring \<times> jstring) option" where
  "parse_frac s =
     (case s of
        [] \<Rightarrow> Some ([], s)
      | c # r \<Rightarrow>
          if c = 0x2E then
            (case parse_digits1 r of None \<Rightarrow> None | Some (ds, r') \<Rightarrow> Some (c # ds, r'))
          else Some ([], s))"

definition parse_exp :: "jstring \<Rightarrow> (jstring \<times> jstring) option" where
  "parse_exp s =
     (case s of
        [] \<Rightarrow> Some ([], s)
      | c # r \<Rightarrow>
          if c = 0x65 \<or> c = 0x45 then
            (case r of
               [] \<Rightarrow> None
             | g # r' \<Rightarrow>
                 if g = 0x2B \<or> g = 0x2D then
                   (case parse_digits1 r' of
                      None \<Rightarrow> None
                    | Some (ds, r'') \<Rightarrow> Some (c # g # ds, r''))
                 else
                   (case parse_digits1 r of
                      None \<Rightarrow> None
                    | Some (ds, r'') \<Rightarrow> Some (c # ds, r'')))
          else Some ([], s))"

definition parse_sign :: "jstring \<Rightarrow> jstring \<times> jstring" where
  "parse_sign s =
     (case s of
        [] \<Rightarrow> ([], s)
      | c # r \<Rightarrow> if c = 0x2D then ([c], r) else ([], s))"

definition parse_number :: "jstring \<Rightarrow> (jstring \<times> jstring) option" where
  "parse_number s =
     (case parse_int (snd (parse_sign s)) of
        None \<Rightarrow> None
      | Some (ip, s2) \<Rightarrow>
          (case parse_frac s2 of
             None \<Rightarrow> None
           | Some (fp, s3) \<Rightarrow>
               (case parse_exp s3 of
                  None \<Rightarrow> None
                | Some (ep, s4) \<Rightarrow> Some (fst (parse_sign s) @ ip @ fp @ ep, s4))))"

subsection \<open>Objects\<close>

text \<open>
  \<^verbatim>\<open>JSON.parse\<close> creates each member of an object with \<^verbatim>\<open>CreateDataProperty\<close>: a repeated key
  overwrites the earlier value in place, and JavaScript enumerates array-index keys
  (canonical decimal numerals below \<open>2^32 - 1\<close>) first, in ascending order, then the other
  keys in creation order.
\<close>

definition decimal_value :: "jstring \<Rightarrow> int" where
  "decimal_value k = foldl (\<lambda>a c. 10 * a + uint (c - 0x30)) 0 k"

definition is_array_index :: "jstring \<Rightarrow> bool" where
  "is_array_index k =
     (case k of
        [] \<Rightarrow> False
      | c # r \<Rightarrow>
          list_all is_digit k \<and> (if c = 0x30 then r = [] else True)
          \<and> decimal_value k < 2 ^ 32 - 1)"

fun overwrite :: "jstring \<Rightarrow> json \<Rightarrow> (jstring \<times> json) list \<Rightarrow> (jstring \<times> json) list" where
  "overwrite k v [] = []"
| "overwrite k v (p # ps) = (if fst p = k then (k, v) # ps else p # overwrite k v ps)"

fun insert_index :: "jstring \<Rightarrow> json \<Rightarrow> (jstring \<times> json) list \<Rightarrow> (jstring \<times> json) list" where
  "insert_index k v [] = [(k, v)]"
| "insert_index k v (p # ps) =
     (if is_array_index (fst p) \<and> decimal_value (fst p) < decimal_value k
      then p # insert_index k v ps
      else (k, v) # p # ps)"

definition define_property :: "(jstring \<times> json) list \<Rightarrow> jstring \<times> json \<Rightarrow> (jstring \<times> json) list" where
  "define_property ps kv =
     (if fst kv \<in> set (map fst ps) then overwrite (fst kv) (snd kv) ps
      else if is_array_index (fst kv) then insert_index (fst kv) (snd kv) ps
      else ps @ [kv])"

definition make_object :: "(jstring \<times> json) list \<Rightarrow> json" where
  "make_object ms = JObject (foldl define_property [] ms)"

subsection \<open>Values\<close>

definition starts_with :: "jstring \<Rightarrow> jstring \<Rightarrow> bool" where
  "starts_with p s = (take (length p) s = p)"

text \<open>
  A recursive-descent parser. The first argument bounds the recursion; every recursive
  call is on a shorter input, so a budget above the length of the text is never used up.
  \<open>parse_elements\<close> reads the elements of a non-empty array up to the closing bracket,
  \<open>parse_members\<close> the members of a non-empty object up to the closing brace.
  Code units: \<open>0x5B\<close> and \<open>0x5D\<close> are the brackets, \<open>0x7B\<close> and \<open>0x7D\<close> the braces,
  \<open>0x2C\<close> the comma, \<open>0x3A\<close> the colon, \<open>0x22\<close> the double quote.
\<close>

fun parse_value :: "nat \<Rightarrow> jstring \<Rightarrow> json parsed"
  and parse_elements :: "nat \<Rightarrow> jstring \<Rightarrow> json list parsed"
  and parse_members :: "nat \<Rightarrow> jstring \<Rightarrow> (jstring \<times> json) list parsed"
where
  "parse_value 0 s = OutOfFuel"
| "parse_value (Suc n) s =
     (case skip_ws s of
        [] \<Rightarrow> Fail
      | c # r \<Rightarrow>
          if c = 0x5B then
            (case skip_ws r of
               [] \<Rightarrow> Fail
             | d # r' \<Rightarrow>
                 if d = 0x5D then Ok (JArray []) r'
                 else map_parsed JArray (parse_elements n (d # r')))
          else if c = 0x7B then
            (case skip_ws r of
               [] \<Rightarrow> Fail
             | d # r' \<Rightarrow>
                 if d = 0x7D then Ok (JObject []) r'
                 else map_parsed make_object (parse_members n (d # r')))
          else if c = 0x22 then
            (case parse_chars r of
               None \<Rightarrow> Fail
             | Some (str, r') \<Rightarrow> Ok (JString str) r')
          else if starts_with (js ''true'') (c # r) then Ok (JBool True) (drop 4 (c # r))
          else if starts_with (js ''false'') (c # r) then Ok (JBool False) (drop 5 (c # r))
          else if starts_with (js ''null'') (c # r) then Ok JNull (drop 4 (c # r))
          else
            (case parse_number (c # r) of
               None \<Rightarrow> Fail
             | Some (lexeme, r') \<Rightarrow> Ok (JNumber lexeme) r'))"
| "parse_elements 0 s = OutOfFuel"
| "parse_elements (Suc n) s =
     (case parse_value (Suc n) s of
        Fail \<Rightarrow> Fail
      | OutOfFuel \<Rightarrow> OutOfFuel
      | Ok v r \<Rightarrow>
          (case skip_ws r of
             [] \<Rightarrow> Fail
           | c # r' \<Rightarrow>
               if c = 0x5D then Ok [v] r'
               else if c = 0x2C then map_parsed ((#) v) (parse_elements n r')
               else Fail))"
| "parse_members 0 s = OutOfFuel"
| "parse_members (Suc n) s =
     (case skip_ws s of
        [] \<Rightarrow> Fail
      | q # r \<Rightarrow>
          if q \<noteq> 0x22 then Fail
          else
            (case parse_chars r of
               None \<Rightarrow> Fail
             | Some (k, r1) \<Rightarrow>
                 (case skip_ws r1 of
                    [] \<Rightarrow> Fail
                  | c # r2 \<Rightarrow>
                      if c \<noteq> 0x3A then Fail
                      else
                        (case parse_value (Suc n) r2 of
                           Fail \<Rightarrow> Fail
                         | OutOfFuel \<Rightarrow> OutOfFuel
                         | Ok v r3 \<Rightarrow>
                             (case skip_ws r3 of
                                [] \<Rightarrow> Fail
                              | d # r4 \<Rightarrow>
                                  if d = 0x7D then Ok [(k, v)] r4
                                  else if d = 0x2C then
                                    map_parsed ((#) (k, v)) (parse_members n r4)
                                  else Fail)))))"

text \<open>
  \<^verbatim>\<open>JSON.parse(text)\<close>: one value, surrounded by optional white space, and nothing else;
  anything else throws \<^verbatim>\<open>SyntaxError\<close>.
\<close>

definition JSON_parse :: "jstring \<Rightarrow> js_error + json" where
  "JSON_parse text =
     (case parse_value (Suc (length text)) text of
        Ok v r \<Rightarrow> if skip_ws r = [] then Inr v else Inl SyntaxError
      | Fail \<Rightarrow> Inl SyntaxError
      | OutOfFuel \<Rightarrow> Inl SyntaxError)"

section \<open>\<^verbatim>\<open>JSON.stringify\<close> on a list of todos\<close>

text \<open>
  \<^verbatim>\<open>QuoteJSONString\<close> of ECMA-262: the string is read code point by code point. A high
  surrogate followed by a low surrogate is one code point and is copied; a lone surrogate
  and a control character are written as a \<^verbatim>\<open>u\<close> escape with four lower-case hexadecimal
  digits, except for the characters that have a short escape.
\<close>

definition is_high_surrogate :: "code_unit \<Rightarrow> bool" where
  "is_high_surrogate c = (0xD800 \<le> c \<and> c \<le> 0xDBFF)"

definition is_low_surrogate :: "code_unit \<Rightarrow> bool" where
  "is_low_surrogate c = (0xDC00 \<le> c \<and> c \<le> 0xDFFF)"

definition hexdigit :: "code_unit \<Rightarrow> code_unit" where
  "hexdigit d = (if d < 10 then 0x30 + d else 0x57 + d)"

definition unicode_escape :: "code_unit \<Rightarrow> jstring" where
  "unicode_escape c =
     [0x5C, 0x75,
      hexdigit (drop_bit 12 c),
      hexdigit (take_bit 4 (drop_bit 8 c)),
      hexdigit (take_bit 4 (drop_bit 4 c)),
      hexdigit (take_bit 4 c)]"

definition escape_unit :: "code_unit \<Rightarrow> jstring" where
  "escape_unit c =
     (if c = 0x08 then [0x5C, 0x62]
      else if c = 0x09 then [0x5C, 0x74]
      else if c = 0x0A then [0x5C, 0x6E]
      else if c = 0x0C then [0x5C, 0x66]
      else if c = 0x0D then [0x5C, 0x72]
      else if c = 0x22 then [0x5C, 0x22]
      else if c = 0x5C then [0x5C, 0x5C]
      else if c < 0x20 \<or> is_high_surrogate c \<or> is_low_surrogate c then unicode_escape c
      else [c])"

fun quote_chars :: "jstring \<Rightarrow> jstring" where
  "quote_chars [] = []"
| "quote_chars [c] = escape_unit c"
| "quote_chars (c # d # cs) =
     (if is_high_surrogate c \<and> is_low_surrogate d then c # d # quote_chars cs
      else escape_unit c @ quote_chars (d # cs))"

definition QuoteJSONString :: "jstring \<Rightarrow> jstring" where
  "QuoteJSONString s = 0x22 # quote_chars s @ [0x22]"

text \<open>
  \<^verbatim>\<open>JSON.stringify\<close> without an indent writes an object as its members \<^verbatim>\<open>key:value\<close>
  separated by commas between braces, in property order, and an array as its elements
  separated by commas between brackets. A \<^verbatim>\<open>Todo\<close> has the properties \<^verbatim>\<open>id\<close>,
  \<^verbatim>\<open>title\<close>, \<^verbatim>\<open>completed\<close>, in this order (the order of the object literal in
  \<^verbatim>\<open>addTodo\<close>, which the spread in \<^verbatim>\<open>toggleTodo\<close> keeps).
\<close>

fun join_comma :: "jstring list \<Rightarrow> jstring" where
  "join_comma [] = []"
| "join_comma [x] = x"
| "join_comma (x # y # ys) = x @ 0x2C # join_comma (y # ys)"

definition stringify_bool :: "bool \<Rightarrow> jstring" where
  "stringify_bool b = (if b then js ''true'' else js ''false'')"

definition member_text :: "jstring \<Rightarrow> jstring \<Rightarrow> jstring" where
  "member_text k v = QuoteJSONString k @ 0x3A # v"

definition stringify_Todo :: "Todo \<Rightarrow> jstring" where
  "stringify_Todo t =
     0x7B #
     join_comma
       [member_text (js ''id'') (QuoteJSONString (id_todo t)),
        member_text (js ''title'') (QuoteJSONString (title t)),
        member_text (js ''completed'') (stringify_bool (completed t))]
     @ [0x7D]"

definition stringify_Todos :: "Todo list \<Rightarrow> jstring" where
  "stringify_Todos L = 0x5B # join_comma (map stringify_Todo L) @ [0x5D]"

text \<open>
  The JavaScript value that a typed todo is at run time. The operations below work on
  typed todos; \<open>load\<close> returns run-time values, and a loaded list \<open>map todo_json L\<close> is
  the typed list \<open>L\<close>.
\<close>

definition todo_json :: "Todo \<Rightarrow> json" where
  "todo_json t =
     JObject [(js ''id'', JString (id_todo t)),
              (js ''title'', JString (title t)),
              (js ''completed'', JBool (completed t))]"

section \<open>Persistence: the state initialiser and the effect of \<open>useTodos\<close>\<close>

text \<open>
  \<^verbatim>\<open>localStorage\<close> maps keys to strings; \<^verbatim>\<open>getItem\<close> returns \<^verbatim>\<open>null\<close> for a missing key.
  \<^verbatim>\<open>const STORAGE_KEY = "todos-v2" as const;\<close>
\<close>

type_synonym storage = "jstring \<rightharpoonup> jstring"

definition getItem :: "storage \<Rightarrow> jstring \<Rightarrow> jstring option" where
  "getItem st k = st k"

definition setItem :: "jstring \<Rightarrow> jstring \<Rightarrow> storage \<Rightarrow> storage" where
  "setItem k v st = st(k \<mapsto> v)"

definition STORAGE_KEY :: jstring where
  "STORAGE_KEY = js ''todos-v2''"

text \<open>
  The initialiser of the \<^verbatim>\<open>todos\<close> state:
  \<^verbatim>\<open>
  try {
    const saved = JSON.parse(localStorage.getItem(STORAGE_KEY) || "[]");
    if (Array.isArray(saved)) return saved as Todo[];
  } catch {}
  return [];
  \<close>
  \<open>or_default\<close> is the operator \<^verbatim>\<open>||\<close> on a string or \<^verbatim>\<open>null\<close>: both \<^verbatim>\<open>null\<close> and the empty
  string are falsy. \<open>try_block\<close> is the body of \<^verbatim>\<open>try\<close>: it throws, returns the array, or
  falls through (\<open>None\<close>); \<open>array_elements\<close> reads an array as the list of its elements.
  The cast \<^verbatim>\<open>as Todo[]\<close> does nothing at run time, so \<open>load\<close>
  returns the elements as the JavaScript values they are.
\<close>

definition or_default :: "jstring option \<Rightarrow> jstring \<Rightarrow> jstring" where
  "or_default x d = (case x of None \<Rightarrow> d | Some s \<Rightarrow> if s = [] then d else s)"

definition isArray :: "json \<Rightarrow> bool" where
  "isArray v = (case v of JArray xs \<Rightarrow> True | _ \<Rightarrow> False)"

definition array_elements :: "json \<Rightarrow> json list" where
  "array_elements v = (case v of JArray xs \<Rightarrow> xs | _ \<Rightarrow> [])"

definition try_block :: "storage \<Rightarrow> js_error + json list option" where
  "try_block st =
     (case JSON_parse (or_default (getItem st STORAGE_KEY) (js ''[]'')) of
        Inl e \<Rightarrow> Inl e
      | Inr saved \<Rightarrow>
          if isArray saved then Inr (Some (array_elements saved)) else Inr None)"

definition load :: "storage \<Rightarrow> js_error + json list" where
  "load st =
     (case try_block st of
        Inl e \<Rightarrow> Inr []
      | Inr (Some xs) \<Rightarrow> Inr xs
      | Inr None \<Rightarrow> Inr [])"

text \<open>
  The effect that runs after every change of \<^verbatim>\<open>todos\<close>:
  \<^verbatim>\<open>localStorage.setItem(STORAGE_KEY, JSON.stringify(todos));\<close>
  It is modelled on lists of well-typed todos, and the store always accepts the write
  (a quota error of the platform is not modelled).
\<close>

definition persist :: "Todo list \<Rightarrow> storage \<Rightarrow> storage" where
  "persist ts st = setItem STORAGE_KEY (stringify_Todos ts) st"

section \<open>The list operations of \<open>useTodos\<close>\<close>

text \<open>
  \<^verbatim>\<open>function uid(): string {
    return Math.random().toString(36).slice(2, 9) + Date.now().toString(36);
  }\<close>
  The two readings of the environment are arguments: \<open>rnd\<close> is the string
  \<^verbatim>\<open>Math.random().toString(36)\<close> (the rendering of a double in base 36 is not modelled) and
  \<open>now\<close> is the integer \<^verbatim>\<open>Date.now()\<close>.
\<close>

definition slice :: "jstring \<Rightarrow> nat \<Rightarrow> nat \<Rightarrow> jstring" where
  "slice s start fin =
     take (min fin (length s) - min start (length s)) (drop (min start (length s)) s)"

definition digit36 :: "nat \<Rightarrow> code_unit" where
  "digit36 d = (if d < 10 then 0x30 + of_nat d else 0x57 + of_nat d)"

fun base36 :: "nat \<Rightarrow> jstring" where
  "base36 n = (if n < 36 then [digit36 n] else base36 (n div 36) @ [digit36 (n mod 36)])"

declare base36.simps [simp del]

definition toString36 :: "int \<Rightarrow> jstring" where
  "toString36 i = (if i < 0 then 0x2D # base36 (nat (- i)) else base36 (nat i))"

definition uid :: "jstring \<Rightarrow> int \<Rightarrow> jstring" where
  "uid rnd now = slice rnd 2 9 @ toString36 now"

text \<open>
  \<^verbatim>\<open>const addTodo = (title: string) =>
     setTodos((curr) => [{ id: uid(), title, completed: false }, ...curr]);\<close>
\<close>

definition addTodo :: "jstring \<Rightarrow> int \<Rightarrow> jstring \<Rightarrow> Todo list \<Rightarrow> Todo list" where
  "addTodo rnd now ttl cur = \<lparr>id_todo = uid rnd now, title = ttl, completed = False\<rparr> # cur"

text \<open>
  \<^verbatim>\<open>const removeTodo = (id: string) => setTodos((curr) => curr.filter((t) => t.id !== id));\<close>
\<close>

definition removeTodo :: "jstring \<Rightarrow> Todo list \<Rightarrow> Todo list" where
  "removeTodo i cur = filter (\<lambda>t. id_todo t \<noteq> i) cur"

text \<open>
  \<^verbatim>\<open>const toggleTodo = (id: string) => setTodos((curr) =>
     curr.map((t) => (t.id === id ? { ...t, completed: !t.completed } : t)));\<close>
\<close>

definition toggleTodo :: "jstring \<Rightarrow> Todo list \<Rightarrow> Todo list" where
  "toggleTodo i cur =
     map (\<lambda>t. if id_todo t = i then t\<lparr>completed := \<not> completed t\<rparr> else t) cur"

section \<open>The page \<open>Home\<close>\<close>

text \<open>
  The state of the page: the list held by \<open>useTodos\<close> and the text of the input field
  (\<^verbatim>\<open>const [value, setValue] = useState<string>("")\<close>; the field is called \<open>value_input\<close>
  here). The header shows
  \<^verbatim>\<open>{completed}/{todos.length} done\<close> with
  \<^verbatim>\<open>const completed = useMemo(() => todos.filter((t) => t.completed).length, [todos]);\<close>
\<close>

record home =
  todos :: "Todo list"
  value_input :: jstring

definition completed_count :: "Todo list \<Rightarrow> nat" where
  "completed_count ts = length (filter completed ts)"

definition header_counts :: "home \<Rightarrow> nat \<times> nat" where
  "header_counts h = (completed_count (todos h), length (todos h))"

text \<open>
  \<^verbatim>\<open>String.prototype.trim\<close> removes leading and trailing white space and line terminators
  of ECMA-262: tab, line feed, vertical tab, form feed, carriage return, space, no-break
  space, the space separators \<open>U+1680\<close>, \<open>U+2000\<close> to \<open>U+200A\<close>, \<open>U+202F\<close>, \<open>U+205F\<close>,
  \<open>U+3000\<close>, the line and paragraph separators \<open>U+2028\<close> and \<open>U+2029\<close>, and \<open>U+FEFF\<close>.
\<close>

definition is_js_whitespace :: "code_unit \<Rightarrow> bool" where
  "is_js_whitespace c =
     (c = 0x09 \<or> c = 0x0A \<or> c = 0x0B \<or> c = 0x0C \<or> c = 0x0D \<or> c = 0x20 \<or> c = 0xA0
      \<or> c = 0x1680 \<or> (0x2000 \<le> c \<and> c \<le> 0x200A) \<or> c = 0x2028 \<or> c = 0x2029
      \<or> c = 0x202F \<or> c = 0x205F \<or> c = 0x3000 \<or> c = 0xFEFF)"

definition trim :: "jstring \<Rightarrow> jstring" where
  "trim s = rev (dropWhile is_js_whitespace (rev (dropWhile is_js_whitespace s)))"

text \<open>
  \<^verbatim>\<open>const onSubmit = (e) => {
    e.preventDefault();
    const v = value.trim();
    if (!v) return;
    addTodo(v);
    setValue("");
  };\<close>
\<close>

definition onSubmit :: "jstring \<Rightarrow> int \<Rightarrow> home \<Rightarrow> home" where
  "onSubmit rnd now h =
     (let v = trim (value_input h)
      in if v = [] then h
         else h\<lparr>todos := addTodo rnd now v (todos h), value_input := []\<rparr>)"

section \<open>Strings survive quoting and parsing\<close>

lemma nat_below_16:
  "k < 16 \<Longrightarrow> k \<in> {0, 1, 2, 3, 4, 5, 6, 7, 8, 9, 10, 11, 12, 13, 14, 15 :: nat}"
  by (simp only: insert_iff empty_iff) arith

lemma hex_val_hexdigit_nat:
  assumes "k < 16"
  shows "hex_val (hexdigit (of_nat k)) = Some (of_nat k)"
  using nat_below_16 [OF assms]
  by (elim insertE emptyE) (simp_all add: hex_val_def hexdigit_def)

lemma hex_val_hexdigit:
  assumes "d < 16"
  shows "hex_val (hexdigit d) = Some d"
proof -
  have "unat d < 16"
    using assms by (simp add: word_less_nat_alt)
  then have "hex_val (hexdigit (of_nat (unat d))) = Some (of_nat (unat d))"
    by (rule hex_val_hexdigit_nat)
  then show ?thesis by simp
qed

lemma nibble_bound: "take_bit 4 (w :: code_unit) < 16"
proof -
  have "take_bit 4 (unat w) < 2 ^ 4"
    by (rule take_bit_nat_less_exp)
  then show ?thesis
    by (simp add: word_less_nat_alt unsigned_take_bit_eq)
qed

lemma top_nibble_bound: "drop_bit 12 (w :: code_unit) < 16"
proof -
  have "unat w < 2 ^ 16"
    using unsigned_less [of w, where ?'a = nat] by simp
  then have "unat w div 2 ^ 12 < 2 ^ 4"
    by simp
  then show ?thesis
    by (simp add: word_less_nat_alt drop_bit_eq_div unat_div)
qed

lemma nibbles_recompose:
  "push_bit 12 (drop_bit 12 c) OR push_bit 8 (take_bit 4 (drop_bit 8 c))
     OR push_bit 4 (take_bit 4 (drop_bit 4 c)) OR take_bit 4 c = (c :: code_unit)"
proof (rule bit_word_eqI)
  fix n :: nat
  assume "n < LENGTH(16)"
  then show "bit (push_bit 12 (drop_bit 12 c) OR push_bit 8 (take_bit 4 (drop_bit 8 c))
     OR push_bit 4 (take_bit 4 (drop_bit 4 c)) OR take_bit 4 c) n = bit c n"
    by (cases "n < 4"; cases "n < 8"; cases "n < 12") (auto simp add: bit_simps not_less)
qed

lemma hex4_unicode_escape:
  "hex4 (hexdigit (drop_bit 12 c)) (hexdigit (take_bit 4 (drop_bit 8 c)))
        (hexdigit (take_bit 4 (drop_bit 4 c))) (hexdigit (take_bit 4 c)) = Some c"
  by (simp only: hex4_def hex_val_hexdigit nibble_bound top_nibble_bound nibbles_recompose
        prod.case option.case)

lemma parse_chars_unicode_escape:
  "parse_chars (unicode_escape c @ rest) = consP c (parse_chars rest)"
  by (simp add: unicode_escape_def hex4_unicode_escape)

lemma parse_chars_escape_unit:
  "parse_chars (escape_unit c @ rest) = consP c (parse_chars rest)"
  by (simp add: escape_unit_def parse_chars_unicode_escape unescape_def)

lemma surrogate_plain:
  assumes "0xD800 \<le> (c :: code_unit)"
  shows "c \<noteq> 0x22" and "c \<noteq> 0x5C" and "\<not> c < 0x20"
proof -
  have "(0x20 :: code_unit) < 0xD800" and "(0x22 :: code_unit) < 0xD800"
    and "(0x5C :: code_unit) < 0xD800"
    by simp_all
  with assms have "0x20 < c" and "0x22 < c" and "0x5C < c"
    by (simp_all only: less_le_trans)
  then show "c \<noteq> 0x22" and "c \<noteq> 0x5C" and "\<not> c < 0x20"
    by auto
qed

lemma low_above_high:
  assumes "is_low_surrogate d"
  shows "0xD800 \<le> d"
proof -
  have "(0xD800 :: code_unit) \<le> 0xDC00"
    by simp
  moreover from assms have "0xDC00 \<le> d"
    by (simp add: is_low_surrogate_def)
  ultimately show ?thesis
    by (rule order_trans)
qed

lemma parse_chars_quote_chars:
  "parse_chars (quote_chars s @ 0x22 # rest) = Some (s, rest)"
proof (induction s rule: quote_chars.induct)
  case 1
  show ?case by simp
next
  case (2 c)
  show ?case
    by (simp add: parse_chars_escape_unit consP_def)
next
  case (3 c d cs)
  show ?case
  proof (cases "is_high_surrogate c \<and> is_low_surrogate d")
    case True
    then have c: "0xD800 \<le> c" and d: "0xD800 \<le> d"
      by (simp_all add: is_high_surrogate_def low_above_high)
    from True have unfold: "quote_chars (c # d # cs) = c # d # quote_chars cs"
      by simp
    from True 3 have "parse_chars (quote_chars cs @ 0x22 # rest) = Some (cs, rest)"
      by simp
    then show ?thesis
      using surrogate_plain [OF c] surrogate_plain [OF d]
      by (simp add: unfold consP_def del: quote_chars.simps)
  next
    case False
    then have unfold: "quote_chars (c # d # cs) = escape_unit c @ quote_chars (d # cs)"
      by auto
    from False 3 have "parse_chars (quote_chars (d # cs) @ 0x22 # rest) = Some (d # cs, rest)"
      by simp
    then show ?thesis
      by (simp only: unfold append_assoc parse_chars_escape_unit consP_def option.case prod.case)
  qed
qed

section \<open>A stored list of todos parses back\<close>

lemma skip_ws_Nil [simp]: "skip_ws [] = []"
  by (simp add: skip_ws_def)

lemma skip_ws_punct [simp]:
  "skip_ws (0x22 # r) = 0x22 # r"
  "skip_ws (0x2C # r) = 0x2C # r" "skip_ws (0x3A # r) = 0x3A # r"
  "skip_ws (0x5B # r) = 0x5B # r" "skip_ws (0x5D # r) = 0x5D # r"
  "skip_ws (0x7B # r) = 0x7B # r" "skip_ws (0x7D # r) = 0x7D # r"
  by (simp_all add: skip_ws_def is_json_ws_def)

lemma parse_value_string:
  "parse_value (Suc n) (QuoteJSONString s @ rest) = Ok (JString s) rest"
  by (simp add: QuoteJSONString_def parse_chars_quote_chars)

lemma parse_value_bool:
  "parse_value (Suc n) (stringify_bool b @ rest) = Ok (JBool b) rest"
  by (simp add: stringify_bool_def js_def skip_ws_def is_json_ws_def starts_with_def)

lemma parse_members_key:
  "parse_members (Suc n) (member_text k v @ rest) =
     (case parse_value (Suc n) (v @ rest) of
        Fail \<Rightarrow> Fail
      | OutOfFuel \<Rightarrow> OutOfFuel
      | Ok x r3 \<Rightarrow>
          (case skip_ws r3 of
             [] \<Rightarrow> Fail
           | d # r4 \<Rightarrow>
               if d = 0x7D then Ok [(k, x)] r4
               else if d = 0x2C then map_parsed ((#) (k, x)) (parse_members n r4)
               else Fail))"
  by (simp add: member_text_def QuoteJSONString_def parse_chars_quote_chars
           del: parse_value.simps)

lemma parse_members_string_more:
  "parse_members (Suc n) (member_text k (QuoteJSONString s) @ 0x2C # rest) =
     map_parsed ((#) (k, JString s)) (parse_members n rest)"
  by (simp only: parse_members_key parse_value_string parsed.case skip_ws_punct list.case)
     simp

lemma parse_members_bool_last:
  "parse_members (Suc n) (member_text k (stringify_bool b) @ 0x7D # rest) = Ok [(k, JBool b)] rest"
  by (simp only: parse_members_key parse_value_bool parsed.case skip_ws_punct list.case)
     simp

lemma make_object_todo:
  "make_object [(js ''id'', i), (js ''title'', s), (js ''completed'', b)]
     = JObject [(js ''id'', i), (js ''title'', s), (js ''completed'', b)]"
  by (simp add: make_object_def define_property_def is_array_index_def is_digit_def js_def)

lemma parse_value_object_quote:
  "parse_value (Suc n) (0x7B # 0x22 # r) = map_parsed make_object (parse_members n (0x22 # r))"
  by simp

lemma member_text_head:
  "member_text k v @ rest = 0x22 # (quote_chars k @ 0x22 # 0x3A # v @ rest)"
  by (simp add: member_text_def QuoteJSONString_def)

lemma parse_value_object:
  "parse_value (Suc n) (0x7B # member_text k v @ rest)
     = map_parsed make_object (parse_members n (member_text k v @ rest))"
  by (simp only: member_text_head parse_value_object_quote)

lemma parse_value_Todo:
  "parse_value (Suc (Suc (Suc (Suc n)))) (stringify_Todo t @ rest) = Ok (todo_json t) rest"
proof -
  have shape: "stringify_Todo t @ rest =
      0x7B # member_text (js ''id'') (QuoteJSONString (id_todo t)) @ 0x2C #
             member_text (js ''title'') (QuoteJSONString (title t)) @ 0x2C #
             member_text (js ''completed'') (stringify_bool (completed t)) @ 0x7D # rest"
    by (simp add: stringify_Todo_def)
  show ?thesis
    by (simp only: shape parse_value_object parse_members_string_more parse_members_bool_last
          parsed.map make_object_todo todo_json_def)
qed

lemma stringify_Todo_length: "4 \<le> length (stringify_Todo t)"
  by (simp add: stringify_Todo_def member_text_def QuoteJSONString_def)

lemma parse_elements_Todos:
  assumes "length L + 3 \<le> n" and "L \<noteq> []"
  shows "parse_elements n (join_comma (map stringify_Todo L) @ 0x5D # rest)
           = Ok (map todo_json L) rest"
  using assms
proof (induction L arbitrary: n)
  case Nil
  then show ?case by simp
next
  case (Cons t L)
  then have "4 \<le> n"
    by simp
  then obtain m where "n = 4 + m"
    using le_Suc_ex by blast
  then have n: "n = Suc (Suc (Suc (Suc m)))"
    by simp
  show ?case
  proof (cases L)
    case Nil
    then show ?thesis
      by (simp add: n parse_value_Todo del: parse_value.simps)
  next
    case (Cons u L')
    from Cons.prems n have "length L + 3 \<le> Suc (Suc (Suc m))"
      by simp
    with Cons.IH [of "Suc (Suc (Suc m))"] Cons
    have "parse_elements (Suc (Suc (Suc m))) (join_comma (map stringify_Todo L) @ 0x5D # rest)
            = Ok (map todo_json L) rest"
      by simp
    with Cons show ?thesis
      by (simp add: n parse_value_Todo del: parse_value.simps)
  qed
qed

lemma join_comma_length:
  "L \<noteq> [] \<Longrightarrow> length L + 3 \<le> length (join_comma (map stringify_Todo L))"
proof (induction L)
  case Nil
  then show ?case by simp
next
  case (Cons t L)
  show ?case
    using stringify_Todo_length [of t] Cons.IH
    by (cases L) simp_all
qed

lemma join_comma_head:
  "L \<noteq> [] \<Longrightarrow> join_comma (map stringify_Todo L) = 0x7B # tl (join_comma (map stringify_Todo L))"
proof (induction L)
  case Nil
  then show ?case by simp
next
  case (Cons t L)
  show ?case
    by (cases L) (simp_all add: stringify_Todo_def)
qed

lemma parse_value_array:
  "parse_value (Suc n) (0x5B # 0x7B # r) = map_parsed JArray (parse_elements n (0x7B # r))"
  by simp

lemma JSON_parse_stringify_Todos:
  "JSON_parse (stringify_Todos L) = Inr (JArray (map todo_json L))"
proof (cases "L = []")
  case True
  then show ?thesis
    by (simp add: JSON_parse_def stringify_Todos_def)
next
  case False
  define body where "body = join_comma (map stringify_Todo L)"
  define N where "N = length (stringify_Todos L)"
  have fuel: "length L + 3 \<le> N"
    using join_comma_length [OF False] by (simp add: stringify_Todos_def N_def)
  have body: "body = 0x7B # tl body"
    unfolding body_def by (rule join_comma_head [OF False])
  have "stringify_Todos L = 0x5B # body @ [0x5D]"
    by (simp add: stringify_Todos_def body_def)
  also have "\<dots> = 0x5B # 0x7B # (tl body @ [0x5D])"
    by (subst body) simp
  finally have whole: "stringify_Todos L = 0x5B # 0x7B # (tl body @ [0x5D])" .
  have "parse_elements N (body @ 0x5D # []) = Ok (map todo_json L) []"
    unfolding body_def by (rule parse_elements_Todos [OF fuel False])
  also have "body @ 0x5D # [] = 0x7B # (tl body @ [0x5D])"
    by (subst body) simp
  finally have elems: "parse_elements N (0x7B # (tl body @ [0x5D])) = Ok (map todo_json L) []" .
  have "parse_value (Suc N) (stringify_Todos L) = Ok (JArray (map todo_json L)) []"
    by (simp only: whole parse_value_array elems parsed.map)
  then show ?thesis
    by (simp add: JSON_parse_def N_def)
qed

lemma stringify_Todos_nonempty: "stringify_Todos L \<noteq> []"
  by (simp add: stringify_Todos_def)

lemma load_persist: "load (persist L st) = Inr (map todo_json L)"
  by (simp add: load_def try_block_def persist_def setItem_def getItem_def or_default_def
        isArray_def array_elements_def stringify_Todos_nonempty JSON_parse_stringify_Todos)

section \<open>The recursion budget of \<open>JSON_parse\<close> is never used up\<close>

lemma skip_ws_length: "length (skip_ws s) \<le> length s"
  by (simp add: skip_ws_def length_dropWhile_le)

lemma skip_ws_Cons_length: "skip_ws s = c # r \<Longrightarrow> length r < length s"
  using skip_ws_length [of s] by simp

lemma consP_Some: "consP u p = Some (str, r) \<Longrightarrow> \<exists>str'. p = Some (str', r)"
  by (auto simp add: consP_def split: option.splits)

lemma parse_chars_shorter: "parse_chars s = Some (str, r) \<Longrightarrow> length r < length s"
proof (induction s arbitrary: str rule: parse_chars.induct)
  case 1
  then show ?case by simp
next
  case (2 c cs)
  show ?case
  proof (cases "c = 0x22")
    case True
    with 2 show ?thesis by simp
  next
    case False
    note notq = False
    show ?thesis
    proof (cases "c = 0x5C")
      case False
      with notq "2.prems" have "\<not> c < 0x20" and "consP c (parse_chars cs) = Some (str, r)"
        by (auto split: if_splits)
      then obtain str' where "parse_chars cs = Some (str', r)"
        using consP_Some by blast
      with "2.IH"(3) notq False \<open>\<not> c < 0x20\<close> have "length r < length cs"
        by simp
      then show ?thesis by simp
    next
      case True
      with "2.prems" obtain e es where cs: "cs = e # es"
        by (cases cs) auto
      show ?thesis
      proof (cases "e = 0x75")
        case False
        with True cs "2.prems" obtain u where u: "unescape e = Some u"
          and "consP u (parse_chars es) = Some (str, r)"
          by (auto split: option.splits)
        then obtain str' where "parse_chars es = Some (str', r)"
          using consP_Some by blast
        with "2.IH"(2) [OF notq True cs False u] have "length r < length es"
          by simp
        with cs show ?thesis by simp
      next
        case e: True
        with True cs "2.prems" obtain h1 h2 h3 h4 r0 u where es: "es = h1 # h2 # h3 # h4 # r0"
          and u: "hex4 h1 h2 h3 h4 = Some u"
          and "consP u (parse_chars r0) = Some (str, r)"
          by (auto split: list.splits option.splits)
        then obtain str' where "parse_chars r0 = Some (str', r)"
          using consP_Some by blast
        with "2.IH"(1) [OF notq True cs e] es u have "length r < length r0"
          by simp
        with cs es show ?thesis by simp
      qed
    qed
  qed
qed

lemma parse_digits1_length: "parse_digits1 s = Some (ds, r) \<Longrightarrow> length r \<le> length s"
  by (auto simp add: parse_digits1_def length_dropWhile_le split: if_splits)

lemma parse_int_shorter: "parse_int s = Some (ds, r) \<Longrightarrow> length r < length s"
  using length_dropWhile_le [of is_digit "tl s"]
  by (auto simp add: parse_int_def split: list.splits if_splits)

lemma parse_frac_length: "parse_frac s = Some (ds, r) \<Longrightarrow> length r \<le> length s"
  by (auto simp add: parse_frac_def split: list.splits if_splits option.splits
           dest!: parse_digits1_length)

lemma parse_exp_length: "parse_exp s = Some (ds, r) \<Longrightarrow> length r \<le> length s"
  by (auto simp add: parse_exp_def split: list.splits if_splits option.splits
           dest!: parse_digits1_length)

lemma parse_sign_length: "length (snd (parse_sign s)) \<le> length s"
  by (simp add: parse_sign_def split: list.splits)

lemma parse_number_shorter:
  assumes "parse_number s = Some (lexeme, r)"
  shows "length r < length s"
proof -
  from assms obtain ip s2 fp s3 ep where
    "parse_int (snd (parse_sign s)) = Some (ip, s2)" "parse_frac s2 = Some (fp, s3)"
    "parse_exp s3 = Some (ep, r)"
    by (auto simp add: parse_number_def split: option.splits)
  then have "length s2 < length (snd (parse_sign s))" "length s3 \<le> length s2"
    "length r \<le> length s3"
    by (auto dest: parse_int_shorter parse_frac_length parse_exp_length)
  with parse_sign_length [of s] show ?thesis by simp
qed

lemma map_parsed_Ok: "map_parsed f p = Ok y r \<Longrightarrow> \<exists>x. p = Ok x r"
  by (cases p) simp_all

lemma map_parsed_OutOfFuel: "map_parsed f p = OutOfFuel \<longleftrightarrow> p = OutOfFuel"
  by (cases p) simp_all

lemma parse_value_Suc_shorter:
  assumes elems: "\<And>s vs r. parse_elements n s = Ok vs r \<Longrightarrow> length r < length s"
    and membs: "\<And>s ms r. parse_members n s = Ok ms r \<Longrightarrow> length r < length s"
    and ok: "parse_value (Suc n) s = Ok v r"
  shows "length r < length s"
proof -
  from ok obtain c r0 where s: "skip_ws s = c # r0"
    by (cases "skip_ws s") auto
  then have r0: "length r0 < length s"
    by (rule skip_ws_Cons_length)
  consider (arr) "c = 0x5B" | (obj) "c \<noteq> 0x5B" "c = 0x7B" | (str) "c \<noteq> 0x5B" "c \<noteq> 0x7B" "c = 0x22"
    | (lit) "c \<noteq> 0x5B" "c \<noteq> 0x7B" "c \<noteq> 0x22"
    by blast
  then show ?thesis
  proof cases
    case arr
    with ok s obtain d r' where d: "skip_ws r0 = d # r'"
      by (cases "skip_ws r0") auto
    then have r': "length r' < length r0"
      by (rule skip_ws_Cons_length)
    show ?thesis
    proof (cases "d = 0x5D")
      case True
      with ok s arr d r0 r' show ?thesis by simp
    next
      case False
      with ok s arr d obtain vs where "parse_elements n (d # r') = Ok vs r"
        by (auto dest: map_parsed_Ok)
      from elems [OF this] r0 r' show ?thesis by simp
    qed
  next
    case obj
    with ok s obtain d r' where d: "skip_ws r0 = d # r'"
      by (cases "skip_ws r0") auto
    then have r': "length r' < length r0"
      by (rule skip_ws_Cons_length)
    show ?thesis
    proof (cases "d = 0x7D")
      case True
      with ok s obj d r0 r' show ?thesis by simp
    next
      case False
      with ok s obj d obtain ms where "parse_members n (d # r') = Ok ms r"
        by (auto dest: map_parsed_Ok)
      from membs [OF this] r0 r' show ?thesis by simp
    qed
  next
    case str
    with ok s obtain x where "parse_chars r0 = Some (x, r)"
      by (auto split: option.splits)
    from parse_chars_shorter [OF this] r0 show ?thesis by simp
  next
    case lit
    with ok s have "length r \<le> length r0 \<or> (\<exists>l. parse_number (c # r0) = Some (l, r))"
      by (auto split: if_splits option.splits)
    then show ?thesis
      using r0 s skip_ws_length [of s] by (auto dest: parse_number_shorter)
  qed
qed

lemma parse_elements_Suc_shorter:
  assumes val: "\<And>s v r. parse_value (Suc n) s = Ok v r \<Longrightarrow> length r < length s"
    and elems: "\<And>s vs r. parse_elements n s = Ok vs r \<Longrightarrow> length r < length s"
    and ok: "parse_elements (Suc n) s = Ok vs r"
  shows "length r < length s"
proof -
  from ok obtain v r1 where v: "parse_value (Suc n) s = Ok v r1"
    by (cases "parse_value (Suc n) s") (simp_all del: parse_value.simps)
  then have r1: "length r1 < length s"
    by (rule val)
  from ok v obtain c r2 where c: "skip_ws r1 = c # r2"
    by (cases "skip_ws r1") (simp_all del: parse_value.simps)
  then have r2: "length r2 < length r1"
    by (rule skip_ws_Cons_length)
  show ?thesis
  proof (cases "c = 0x5D")
    case True
    with ok v c r1 r2 show ?thesis
      by (simp del: parse_value.simps)
  next
    case False
    with ok v c obtain ws where "parse_elements n r2 = Ok ws r"
      by (auto simp del: parse_value.simps split: if_splits dest: map_parsed_Ok)
    from elems [OF this] r1 r2 show ?thesis by simp
  qed
qed

lemma parse_members_Suc_shorter:
  assumes val: "\<And>s v r. parse_value (Suc n) s = Ok v r \<Longrightarrow> length r < length s"
    and membs: "\<And>s ms r. parse_members n s = Ok ms r \<Longrightarrow> length r < length s"
    and ok: "parse_members (Suc n) s = Ok ms r"
  shows "length r < length s"
proof -
  from ok obtain q r0 where q: "skip_ws s = q # r0"
    by (cases "skip_ws s") (simp_all del: parse_value.simps)
  then have r0: "length r0 < length s"
    by (rule skip_ws_Cons_length)
  from ok q have q22: "q = 0x22"
    by (auto simp del: parse_value.simps split: if_splits)
  with ok q obtain k r1 where k: "parse_chars r0 = Some (k, r1)"
    by (cases "parse_chars r0") (auto simp del: parse_value.simps)
  then have r1: "length r1 < length r0"
    by (rule parse_chars_shorter)
  from ok q q22 k obtain c r2 where c: "skip_ws r1 = c # r2"
    by (cases "skip_ws r1") (simp_all del: parse_value.simps)
  then have r2: "length r2 < length r1"
    by (rule skip_ws_Cons_length)
  from ok q q22 k c have c3A: "c = 0x3A"
    by (auto simp del: parse_value.simps split: if_splits)
  with ok q q22 k c obtain v r3 where v: "parse_value (Suc n) r2 = Ok v r3"
    by (cases "parse_value (Suc n) r2") (simp_all del: parse_value.simps)
  then have r3: "length r3 < length r2"
    by (rule val)
  from ok q q22 k c c3A v obtain d r4 where d: "skip_ws r3 = d # r4"
    by (cases "skip_ws r3") (simp_all del: parse_value.simps)
  then have r4: "length r4 < length r3"
    by (rule skip_ws_Cons_length)
  show ?thesis
  proof (cases "d = 0x7D")
    case True
    with ok q q22 k c c3A v d r0 r1 r2 r3 r4 show ?thesis
      by (simp del: parse_value.simps)
  next
    case False
    with ok q q22 k c c3A v d obtain ms' where "parse_members n r4 = Ok ms' r"
      by (auto simp del: parse_value.simps split: if_splits dest: map_parsed_Ok)
    from membs [OF this] r0 r1 r2 r3 r4 show ?thesis by simp
  qed
qed

lemma parse_shorter:
  "(\<forall>s v r. parse_value n s = Ok v r \<longrightarrow> length r < length s) \<and>
   (\<forall>s vs r. parse_elements n s = Ok vs r \<longrightarrow> length r < length s) \<and>
   (\<forall>s ms r. parse_members n s = Ok ms r \<longrightarrow> length r < length s)"
proof (induction n)
  case 0
  show ?case by simp
next
  case (Suc n)
  have val: "length r < length s" if "parse_value (Suc n) s = Ok v r" for s v r
    using Suc that by (blast intro: parse_value_Suc_shorter)
  have "length r < length s" if "parse_elements (Suc n) s = Ok vs r" for s vs r
    using Suc val that by (blast intro: parse_elements_Suc_shorter)
  moreover have "length r < length s" if "parse_members (Suc n) s = Ok ms r" for s ms r
    using Suc val that by (blast intro: parse_members_Suc_shorter)
  ultimately show ?case
    using val by blast
qed

lemma parse_value_shorter: "parse_value n s = Ok v r \<Longrightarrow> length r < length s"
  using parse_shorter by blast

lemma parse_value_starved:
  assumes "parse_value (Suc n) s = OutOfFuel"
  shows "\<exists>s'. length s' < length s \<and>
           (parse_elements n s' = OutOfFuel \<or> parse_members n s' = OutOfFuel)"
proof -
  from assms obtain c r0 where s: "skip_ws s = c # r0"
    by (cases "skip_ws s") auto
  then have r0: "length r0 < length s"
    by (rule skip_ws_Cons_length)
  from assms s have "c = 0x5B \<or> c = 0x7B"
    by (auto split: if_splits option.splits)
  with assms s obtain d r' where d: "skip_ws r0 = d # r'"
    by (cases "skip_ws r0") (auto split: if_splits)
  then have "length r' < length r0"
    by (rule skip_ws_Cons_length)
  with r0 have "length (d # r') < length s"
    by simp
  moreover from assms s d
  have "parse_elements n (d # r') = OutOfFuel \<or> parse_members n (d # r') = OutOfFuel"
    by (auto simp add: map_parsed_OutOfFuel split: if_splits option.splits)
  ultimately show ?thesis
    by blast
qed

lemma parse_elements_starved:
  assumes "parse_elements (Suc n) s = OutOfFuel"
  shows "parse_value (Suc n) s = OutOfFuel \<or>
         (\<exists>s'. length s' < length s \<and> parse_elements n s' = OutOfFuel)"
proof (cases "parse_value (Suc n) s")
  case (Ok v r1)
  then have r1: "length r1 < length s"
    by (rule parse_value_shorter)
  from assms Ok obtain c r2 where c: "skip_ws r1 = c # r2"
    by (cases "skip_ws r1") (simp_all del: parse_value.simps)
  then have "length r2 < length r1"
    by (rule skip_ws_Cons_length)
  moreover from assms Ok c have "parse_elements n r2 = OutOfFuel"
    by (auto simp add: map_parsed_OutOfFuel simp del: parse_value.simps split: if_splits)
  ultimately show ?thesis
    using r1 by (metis less_trans)
next
  case Fail
  with assms show ?thesis
    by (simp del: parse_value.simps)
next
  case OutOfFuel
  then show ?thesis by blast
qed

lemma parse_members_starved:
  assumes "parse_members (Suc n) s = OutOfFuel"
  shows "\<exists>s'. length s' < length s \<and>
           (parse_value (Suc n) s' = OutOfFuel \<or> parse_members n s' = OutOfFuel)"
proof -
  from assms obtain q r0 where q: "skip_ws s = q # r0"
    by (cases "skip_ws s") (simp_all del: parse_value.simps)
  then have r0: "length r0 < length s"
    by (rule skip_ws_Cons_length)
  from assms q have q22: "q = 0x22"
    by (auto simp del: parse_value.simps split: if_splits)
  with assms q obtain k r1 where k: "parse_chars r0 = Some (k, r1)"
    by (cases "parse_chars r0") (auto simp del: parse_value.simps)
  then have r1: "length r1 < length r0"
    by (rule parse_chars_shorter)
  from assms q q22 k obtain c r2 where c: "skip_ws r1 = c # r2"
    by (cases "skip_ws r1") (simp_all del: parse_value.simps)
  then have r2: "length r2 < length r1"
    by (rule skip_ws_Cons_length)
  from r0 r1 r2 have r2s: "length r2 < length s"
    by simp
  from assms q q22 k c have c3A: "c = 0x3A"
    by (auto simp del: parse_value.simps split: if_splits)
  show ?thesis
  proof (cases "parse_value (Suc n) r2")
    case (Ok v r3)
    then have r3: "length r3 < length r2"
      by (rule parse_value_shorter)
    from assms q q22 k c c3A Ok obtain d r4 where d: "skip_ws r3 = d # r4"
      by (cases "skip_ws r3") (simp_all del: parse_value.simps)
    then have "length r4 < length r3"
      by (rule skip_ws_Cons_length)
    with r3 r2s have "length r4 < length s"
      by simp
    moreover from assms q q22 k c c3A Ok d have "parse_members n r4 = OutOfFuel"
      by (auto simp add: map_parsed_OutOfFuel simp del: parse_value.simps split: if_splits)
    ultimately show ?thesis
      by blast
  next
    case Fail
    with assms q q22 k c c3A show ?thesis
      by (simp del: parse_value.simps)
  next
    case OutOfFuel
    with r2s show ?thesis by blast
  qed
qed

lemma fuel_suffices:
  "(\<forall>s. length s < n \<longrightarrow> parse_value n s \<noteq> OutOfFuel) \<and>
   (\<forall>s. length s < n \<longrightarrow> parse_elements n s \<noteq> OutOfFuel) \<and>
   (\<forall>s. length s < n \<longrightarrow> parse_members n s \<noteq> OutOfFuel)"
proof (induction n)
  case 0
  show ?case by simp
next
  case (Suc n)
  have val: "parse_value (Suc n) s \<noteq> OutOfFuel" if "length s < Suc n" for s
  proof
    assume "parse_value (Suc n) s = OutOfFuel"
    then obtain s' where "length s' < length s"
      and "parse_elements n s' = OutOfFuel \<or> parse_members n s' = OutOfFuel"
      using parse_value_starved by blast
    moreover from this(1) that have "length s' < n"
      by simp
    ultimately show False
      using Suc by blast
  qed
  have elems: "parse_elements (Suc n) s \<noteq> OutOfFuel" if "length s < Suc n" for s
  proof
    assume "parse_elements (Suc n) s = OutOfFuel"
    then consider "parse_value (Suc n) s = OutOfFuel"
      | s' where "length s' < length s" "parse_elements n s' = OutOfFuel"
      using parse_elements_starved by blast
    then show False
    proof cases
      case 1
      with val [OF that] show False by simp
    next
      case 2
      from 2(1) that have "length s' < n" by simp
      with 2(2) Suc show False by blast
    qed
  qed
  have membs: "parse_members (Suc n) s \<noteq> OutOfFuel" if "length s < Suc n" for s
  proof
    assume "parse_members (Suc n) s = OutOfFuel"
    then obtain s' where s': "length s' < length s"
      and alt: "parse_value (Suc n) s' = OutOfFuel \<or> parse_members n s' = OutOfFuel"
      using parse_members_starved by blast
    from s' that have "length s' < n" by simp
    then have "parse_value (Suc n) s' \<noteq> OutOfFuel" "parse_members n s' \<noteq> OutOfFuel"
      using val [of s'] Suc by simp_all
    with alt show False by blast
  qed
  from val elems membs show ?case
    by blast
qed

lemma JSON_parse_fuel: "parse_value (Suc (length text)) text \<noteq> OutOfFuel"
  using fuel_suffices [of "Suc (length text)"] by simp

section \<open>Facts about the list operations and the form\<close>

lemmas parser_defs = js_def skip_ws_def is_json_ws_def starts_with_def parse_number_def
  parse_sign_def parse_int_def parse_frac_def parse_exp_def parse_digits1_def is_digit_def
  consP_def make_object_def define_property_def is_array_index_def

lemma JSON_parse_empty_text: "JSON_parse [] = Inl SyntaxError"
  by (simp add: JSON_parse_def)

lemma JSON_parse_empty_array: "JSON_parse (js ''[]'') = Inr (JArray [])"
  by (simp add: JSON_parse_def js_def)

lemma todo_json_inj: "todo_json t = todo_json t' \<Longrightarrow> t = t'"
  by (cases t; cases t') (simp add: todo_json_def)

lemma map_todo_json_inj: "map todo_json L = map todo_json L' \<Longrightarrow> L = L'"
proof (induction L arbitrary: L')
  case Nil
  then show ?case by simp
next
  case (Cons t L)
  then show ?case
    by (cases L') (auto dest: todo_json_inj)
qed

lemma toggleTodo_length: "length (toggleTodo i L) = length L"
  by (simp add: toggleTodo_def)

lemma toggleTodo_nth:
  "k < length L \<Longrightarrow>
   toggleTodo i L ! k =
     (if id_todo (L ! k) = i then (L ! k)\<lparr>completed := \<not> completed (L ! k)\<rparr> else L ! k)"
  by (simp add: toggleTodo_def)

lemma toggleTodo_ids: "map id_todo (toggleTodo i L) = map id_todo L"
  by (induction L) (simp_all add: toggleTodo_def)

lemma toggleTodo_missing: "i \<notin> id_todo ` set L \<Longrightarrow> toggleTodo i L = L"
  by (induction L) (auto simp add: toggleTodo_def)

lemma removeTodo_missing: "i \<notin> id_todo ` set L \<Longrightarrow> removeTodo i L = L"
  by (induction L) (auto simp add: removeTodo_def)

lemma removeTodo_append: "removeTodo i (xs @ ys) = removeTodo i xs @ removeTodo i ys"
  by (simp add: removeTodo_def)

lemma removeTodo_ids: "map id_todo (removeTodo i L) = filter (\<lambda>j. j \<noteq> i) (map id_todo L)"
  by (induction L) (simp_all add: removeTodo_def)

lemma dropWhile_all: "list_all P xs \<Longrightarrow> dropWhile P xs = []"
  by (induction xs) simp_all

lemma dropWhile_not_all: "\<not> list_all P xs \<Longrightarrow> dropWhile P xs \<noteq> []"
  by (induction xs) (auto split: if_splits)

lemma last_dropWhile: "dropWhile P xs \<noteq> [] \<Longrightarrow> last (dropWhile P xs) = last xs"
  by (induction xs) (auto split: if_splits)

lemma trim_blank: "list_all is_js_whitespace s \<Longrightarrow> trim s = []"
  by (simp add: trim_def dropWhile_all)

lemma trim_not_blank:
  assumes "\<not> list_all is_js_whitespace s"
  shows "trim s \<noteq> []"
    and "\<not> is_js_whitespace (hd (trim s))"
    and "\<not> is_js_whitespace (last (trim s))"
proof -
  define u where "u = dropWhile is_js_whitespace s"
  define w where "w = dropWhile is_js_whitespace (rev u)"
  have u: "u \<noteq> []"
    unfolding u_def using assms by (rule dropWhile_not_all)
  then have hd_u: "\<not> is_js_whitespace (hd u)"
    unfolding u_def by (rule hd_dropWhile)
  from u have "hd u \<in> set (rev u)"
    by simp
  with hd_u have "\<not> list_all is_js_whitespace (rev u)"
    by (auto simp add: list_all_iff)
  then have w: "w \<noteq> []"
    unfolding w_def by (rule dropWhile_not_all)
  then have hd_w: "\<not> is_js_whitespace (hd w)"
    unfolding w_def by (rule hd_dropWhile)
  from w have "last w = last (rev u)"
    unfolding w_def by (rule last_dropWhile)
  with u have last_w: "last w = hd u"
    by (simp add: last_rev)
  have t: "trim s = rev w"
    by (simp add: trim_def u_def w_def)
  from w show "trim s \<noteq> []"
    by (simp add: t)
  from w hd_u last_w show "\<not> is_js_whitespace (hd (trim s))"
    by (simp add: t hd_rev)
  from w hd_w show "\<not> is_js_whitespace (last (trim s))"
    by (simp add: t last_rev)
qed

section \<open>The claims of the specification\<close>

text \<open>
  C1, as amended. \<open>load\<close> never raises. When nothing is stored under the key, when the
  stored text is not valid JSON, or when it parses to a value that is not an array,
  \<open>load\<close> returns the empty list. When the stored text parses to an array, \<open>load\<close>
  returns the elements of that array as they are: no element is checked, dropped or
  repaired, whatever its shape.
\<close>

theorem load_never_raises:
  "(\<exists>xs. load st = Inr xs)
   \<and> (getItem st STORAGE_KEY = None \<longrightarrow> load st = Inr [])
   \<and> (\<forall>s e. getItem st STORAGE_KEY = Some s \<and> JSON_parse s = Inl e \<longrightarrow> load st = Inr [])
   \<and> (\<forall>s v. getItem st STORAGE_KEY = Some s \<and> JSON_parse s = Inr v \<and> \<not> isArray v
          \<longrightarrow> load st = Inr [])
   \<and> (\<forall>s xs. getItem st STORAGE_KEY = Some s \<and> JSON_parse s = Inr (JArray xs)
          \<longrightarrow> load st = Inr xs)"
proof (cases "getItem st STORAGE_KEY")
  case None
  then show ?thesis
    by (simp add: load_def try_block_def or_default_def JSON_parse_empty_array
          isArray_def array_elements_def)
next
  case (Some s)
  show ?thesis
  proof (cases "s = []")
    case True
    with Some show ?thesis
      by (simp add: load_def try_block_def or_default_def JSON_parse_empty_array
            JSON_parse_empty_text isArray_def array_elements_def)
  next
    case False
    with Some have "try_block st =
        (case JSON_parse s of
           Inl e \<Rightarrow> Inl e
         | Inr saved \<Rightarrow> if isArray saved then Inr (Some (array_elements saved)) else Inr None)"
      by (simp add: try_block_def or_default_def)
    with Some show ?thesis
      by (cases "JSON_parse s")
         (auto simp add: load_def isArray_def array_elements_def split: json.splits)
  qed
qed

theorem load_never_raises_witness:
  "load Map.empty = Inr []
   \<and> load (Map.empty(STORAGE_KEY \<mapsto> js ''{nope'')) = Inr []
   \<and> load (Map.empty(STORAGE_KEY \<mapsto> js ''{}'')) = Inr []
   \<and> load (Map.empty(STORAGE_KEY \<mapsto> js ''[true, 7]'')) = Inr [JBool True, JNumber (js ''7'')]"
proof -
  have absent: "getItem Map.empty STORAGE_KEY = None"
    by (simp add: getItem_def)
  have invalid: "getItem (Map.empty(STORAGE_KEY \<mapsto> js ''{nope'')) STORAGE_KEY = Some (js ''{nope'')
      \<and> JSON_parse (js ''{nope'') = Inl SyntaxError"
    by (simp add: getItem_def JSON_parse_def parser_defs)
  have object: "getItem (Map.empty(STORAGE_KEY \<mapsto> js ''{}'')) STORAGE_KEY = Some (js ''{}'')
      \<and> JSON_parse (js ''{}'') = Inr (JObject []) \<and> \<not> isArray (JObject [])"
    by (simp add: getItem_def JSON_parse_def parser_defs isArray_def)
  have array: "getItem (Map.empty(STORAGE_KEY \<mapsto> js ''[true, 7]'')) STORAGE_KEY
        = Some (js ''[true, 7]'')
      \<and> JSON_parse (js ''[true, 7]'') = Inr (JArray [JBool True, JNumber (js ''7'')])"
    by (simp add: getItem_def JSON_parse_def parser_defs)
  from absent load_never_raises [of Map.empty]
  have "load Map.empty = Inr []"
    by blast
  moreover from invalid load_never_raises [of "Map.empty(STORAGE_KEY \<mapsto> js ''{nope'')"]
  have "load (Map.empty(STORAGE_KEY \<mapsto> js ''{nope'')) = Inr []"
    by blast
  moreover from object load_never_raises [of "Map.empty(STORAGE_KEY \<mapsto> js ''{}'')"]
  have "load (Map.empty(STORAGE_KEY \<mapsto> js ''{}'')) = Inr []"
    by blast
  moreover from array load_never_raises [of "Map.empty(STORAGE_KEY \<mapsto> js ''[true, 7]'')"]
  have "load (Map.empty(STORAGE_KEY \<mapsto> js ''[true, 7]''))
          = Inr [JBool True, JNumber (js ''7'')]"
    by blast
  ultimately show ?thesis
    by blast
qed

text \<open>
  C1, as stated, fails: a stored array whose element is not a todo (here \<^verbatim>\<open>[null]\<close>) is not
  treated as absent; \<open>load\<close> returns its element.
\<close>

theorem load_keeps_malformed_elements:
  "load (Map.empty(STORAGE_KEY \<mapsto> js ''[null]'')) = Inr [JNull]
   \<and> load (Map.empty(STORAGE_KEY \<mapsto> js ''[null]'')) \<noteq> Inr []"
  by (simp add: load_def try_block_def or_default_def getItem_def isArray_def
        array_elements_def JSON_parse_def parser_defs)

text \<open>
  C2. Loading what the effect stored for a list of todos gives that list back: the same
  items with the same three fields, in the same order. The loaded list is the list of
  the run-time objects \<open>todo_json\<close> of the items, and two lists of todos with the same
  run-time objects are equal.
\<close>

theorem load_persist_roundtrip:
  "load (persist L st) = Inr (map todo_json L)
   \<and> (map todo_json L = map todo_json L') = (L = L')"
  using load_persist [of L st] map_todo_json_inj [of L L'] by blast

theorem load_persist_roundtrip_witness:
  "load (persist [\<lparr>id_todo = js ''b1'', title = js ''B'', completed = True\<rparr>,
                  \<lparr>id_todo = js ''a1'', title = js ''A'', completed = False\<rparr>] Map.empty)
     = Inr [JObject [(js ''id'', JString (js ''b1'')), (js ''title'', JString (js ''B'')),
                     (js ''completed'', JBool True)],
            JObject [(js ''id'', JString (js ''a1'')), (js ''title'', JString (js ''A'')),
                     (js ''completed'', JBool False)] ]"
  using load_persist_roundtrip
    [of "[\<lparr>id_todo = js ''b1'', title = js ''B'', completed = True\<rparr>,
          \<lparr>id_todo = js ''a1'', title = js ''A'', completed = False\<rparr>]" Map.empty]
  by (simp add: todo_json_def)

text \<open>
  C3. \<open>addTodo\<close> puts exactly one new item at the front: it has the given title, the
  identifier that \<open>uid\<close> generated, and is not completed; the items that were there follow
  it unchanged, in their order. Adding A and then B to the empty list gives the titles
  B, A.
\<close>

theorem addTodo_prepends:
  "length (addTodo rnd now ttl L) = Suc (length L)
   \<and> title (hd (addTodo rnd now ttl L)) = ttl
   \<and> id_todo (hd (addTodo rnd now ttl L)) = uid rnd now
   \<and> completed (hd (addTodo rnd now ttl L)) = False
   \<and> tl (addTodo rnd now ttl L) = L
   \<and> map title (addTodo rnd2 now2 B (addTodo rnd1 now1 A [])) = [B, A]"
  by (simp add: addTodo_def)

theorem addTodo_prepends_witness:
  "map title (addTodo (js ''0.k3v9x2m1q8'') 1700000000001 (js ''B'')
               (addTodo (js ''0.4fzyo82mvyr'') 1700000000000 (js ''A'') []))
     = [js ''B'', js ''A'']"
  using addTodo_prepends [of _ _ _ "[]" "js ''0.k3v9x2m1q8''" 1700000000001 "js ''B''"
      "js ''0.4fzyo82mvyr''" 1700000000000 "js ''A''"]
  by blast

text \<open>
  C4. \<open>toggleTodo\<close> keeps the length and the order of the list; at every position it
  flips \<open>completed\<close> when the item there has the given identifier and leaves the item as
  it is otherwise. With an identifier that no item has, the list is unchanged.
\<close>

theorem toggleTodo_flips:
  "length (toggleTodo i L) = length L
   \<and> (\<forall>k < length L.
         toggleTodo i L ! k =
           (if id_todo (L ! k) = i then (L ! k)\<lparr>completed := \<not> completed (L ! k)\<rparr>
            else L ! k))
   \<and> (i \<notin> id_todo ` set L \<longrightarrow> toggleTodo i L = L)"
  by (simp add: toggleTodo_length toggleTodo_nth toggleTodo_missing)

theorem toggleTodo_flips_witness:
  "toggleTodo (js ''b'')
     [\<lparr>id_todo = js ''a'', title = js ''A'', completed = False\<rparr>,
      \<lparr>id_todo = js ''b'', title = js ''B'', completed = False\<rparr>] ! 1
     = \<lparr>id_todo = js ''b'', title = js ''B'', completed = True\<rparr>
   \<and> toggleTodo (js ''b'')
     [\<lparr>id_todo = js ''a'', title = js ''A'', completed = False\<rparr>,
      \<lparr>id_todo = js ''b'', title = js ''B'', completed = False\<rparr>] ! 0
     = \<lparr>id_todo = js ''a'', title = js ''A'', completed = False\<rparr>
   \<and> toggleTodo (js ''z'')
     [\<lparr>id_todo = js ''a'', title = js ''A'', completed = False\<rparr>,
      \<lparr>id_todo = js ''b'', title = js ''B'', completed = False\<rparr>]
     = [\<lparr>id_todo = js ''a'', title = js ''A'', completed = False\<rparr>,
        \<lparr>id_todo = js ''b'', title = js ''B'', completed = False\<rparr>]"
proof -
  let ?L = "[\<lparr>id_todo = js ''a'', title = js ''A'', completed = False\<rparr>,
             \<lparr>id_todo = js ''b'', title = js ''B'', completed = False\<rparr>]"
  have present: "(0::nat) < length ?L" "(1::nat) < length ?L"
    and missing: "js ''z'' \<notin> id_todo ` set ?L"
    by (simp_all add: js_def)
  from toggleTodo_flips [of "js ''b''" ?L] present
  have "toggleTodo (js ''b'') ?L ! 1 =
          (if id_todo (?L ! 1) = js ''b'' then (?L ! 1)\<lparr>completed := \<not> completed (?L ! 1)\<rparr>
           else ?L ! 1)"
    and "toggleTodo (js ''b'') ?L ! 0 =
          (if id_todo (?L ! 0) = js ''b'' then (?L ! 0)\<lparr>completed := \<not> completed (?L ! 0)\<rparr>
           else ?L ! 0)"
    by blast+
  moreover from toggleTodo_flips [of "js ''z''" ?L] missing
  have "toggleTodo (js ''z'') ?L = ?L"
    by blast
  ultimately show ?thesis
    by (simp add: js_def)
qed

text \<open>
  C5. \<open>removeTodo\<close> takes the item with the given identifier out and keeps the others in
  their order: the parts of the list before and after that item are treated separately
  and stay in place, and when no other item has the identifier the result is the part
  before followed by the part after (removing B from A, B, C gives A, C). With an
  identifier that no item has, the list is unchanged.
\<close>

theorem removeTodo_removes:
  "(id_todo t = i \<longrightarrow> removeTodo i (xs @ t # ys) = removeTodo i xs @ removeTodo i ys)
   \<and> (id_todo t = i \<and> i \<notin> id_todo ` set xs \<and> i \<notin> id_todo ` set ys
      \<longrightarrow> removeTodo i (xs @ t # ys) = xs @ ys)
   \<and> (i \<notin> id_todo ` set L \<longrightarrow> removeTodo i L = L)"
proof -
  have split: "removeTodo i (xs @ t # ys) = removeTodo i xs @ removeTodo i ys"
    if "id_todo t = i"
  proof -
    have "removeTodo i (xs @ t # ys) = removeTodo i xs @ removeTodo i [t] @ removeTodo i ys"
      using removeTodo_append [of i xs "t # ys"] removeTodo_append [of i "[t]" ys] by simp
    moreover from that have "removeTodo i [t] = []"
      by (simp add: removeTodo_def)
    ultimately show ?thesis
      by simp
  qed
  then have "removeTodo i (xs @ t # ys) = xs @ ys"
    if "id_todo t = i" "i \<notin> id_todo ` set xs" "i \<notin> id_todo ` set ys"
    using that by (simp add: removeTodo_missing)
  with split show ?thesis
    by (simp add: removeTodo_missing)
qed

theorem removeTodo_removes_witness:
  "removeTodo (js ''b'')
     [\<lparr>id_todo = js ''a'', title = js ''A'', completed = False\<rparr>,
      \<lparr>id_todo = js ''b'', title = js ''B'', completed = True\<rparr>,
      \<lparr>id_todo = js ''c'', title = js ''C'', completed = False\<rparr>]
     = [\<lparr>id_todo = js ''a'', title = js ''A'', completed = False\<rparr>,
        \<lparr>id_todo = js ''c'', title = js ''C'', completed = False\<rparr>]
   \<and> removeTodo (js ''z'')
     [\<lparr>id_todo = js ''a'', title = js ''A'', completed = False\<rparr>,
      \<lparr>id_todo = js ''c'', title = js ''C'', completed = False\<rparr>]
     = [\<lparr>id_todo = js ''a'', title = js ''A'', completed = False\<rparr>,
        \<lparr>id_todo = js ''c'', title = js ''C'', completed = False\<rparr>]"
proof -
  let ?A = "\<lparr>id_todo = js ''a'', title = js ''A'', completed = False\<rparr>"
  let ?B = "\<lparr>id_todo = js ''b'', title = js ''B'', completed = True\<rparr>"
  let ?C = "\<lparr>id_todo = js ''c'', title = js ''C'', completed = False\<rparr>"
  have "id_todo ?B = js ''b'' \<and> js ''b'' \<notin> id_todo ` set [?A] \<and> js ''b'' \<notin> id_todo ` set [?C]"
    and "js ''z'' \<notin> id_todo ` set [?A, ?C]"
    by (simp_all add: js_def)
  with removeTodo_removes [of ?B "js ''b''" "[?A]" "[?C]"]
    removeTodo_removes [of _ "js ''z''" _ _ "[?A, ?C]"]
  have "removeTodo (js ''b'') ([?A] @ ?B # [?C]) = [?A] @ [?C]"
    and "removeTodo (js ''z'') [?A, ?C] = [?A, ?C]"
    by blast+
  then show ?thesis
    by simp
qed

text \<open>
  C6. Toggling the same identifier twice gives the original list back, for every list
  and every identifier.
\<close>

theorem toggleTodo_involution: "toggleTodo i (toggleTodo i L) = L"
  by (induction L) (simp_all add: toggleTodo_def)

text \<open>
  C7, as amended. When the identifiers in the list are pairwise distinct, they still are
  after \<open>toggleTodo\<close> and after \<open>removeTodo\<close>; after \<open>addTodo\<close> they are exactly when the
  identifier that \<open>uid\<close> generated is not yet in the list, which \<open>uid\<close> makes likely and
  does not check. \<open>load\<close> checks nothing: it returns the stored items with the
  identifiers they were stored with.
\<close>

theorem distinct_ids_preserved:
  assumes "distinct (map id_todo L)"
  shows "distinct (map id_todo (toggleTodo i L))
   \<and> distinct (map id_todo (removeTodo i L))
   \<and> (distinct (map id_todo (addTodo rnd now ttl L)) \<longleftrightarrow> uid rnd now \<notin> id_todo ` set L)
   \<and> load (persist L st) = Inr (map todo_json L)"
  using assms
  by (simp add: toggleTodo_ids removeTodo_ids addTodo_def load_persist)

theorem distinct_ids_preserved_witness:
  "distinct (map id_todo
     (toggleTodo (js ''a'')
        [\<lparr>id_todo = js ''a'', title = js ''A'', completed = False\<rparr>,
         \<lparr>id_todo = js ''b'', title = js ''B'', completed = True\<rparr>]))
   \<and> distinct (map id_todo
     (removeTodo (js ''a'')
        [\<lparr>id_todo = js ''a'', title = js ''A'', completed = False\<rparr>,
         \<lparr>id_todo = js ''b'', title = js ''B'', completed = True\<rparr>]))"
proof -
  let ?L = "[\<lparr>id_todo = js ''a'', title = js ''A'', completed = False\<rparr>,
             \<lparr>id_todo = js ''b'', title = js ''B'', completed = True\<rparr>]"
  have "distinct (map id_todo ?L)"
    by (simp add: js_def)
  from distinct_ids_preserved [OF this, of "js ''a''"] show ?thesis
    by blast
qed

text \<open>
  C7, as stated, fails: two \<open>addTodo\<close> calls that read the same random rendering within
  the same millisecond produce the same identifier twice, starting from the empty list.
\<close>

theorem addTodo_duplicate_id:
  "distinct (map id_todo ([] :: Todo list))
   \<and> \<not> distinct (map id_todo
         (addTodo (js ''0.4fzyo82mvyr'') 1700000000000 (js ''B'')
            (addTodo (js ''0.4fzyo82mvyr'') 1700000000000 (js ''A'') [])))"
  by (simp add: addTodo_def)

text \<open>
  C8. The two numbers shown in the header are computed from the current list: the first
  is the number of positions whose item is completed, the second the length of the list.
  The state of the page has no field for them.
\<close>

theorem header_counts_derived:
  "header_counts h
     = (card {k. k < length (todos h) \<and> completed (todos h ! k)}, length (todos h))"
  by (simp add: header_counts_def completed_count_def length_filter_conv_card)

text \<open>
  C9. Submitting an input that consists of white space only (the empty input included)
  changes nothing. Otherwise \<open>onSubmit\<close> calls \<open>addTodo\<close> with the trimmed input, which is
  not empty and neither starts nor ends with white space.
\<close>

theorem onSubmit_blank:
  "(list_all is_js_whitespace (value_input h) \<longrightarrow> onSubmit rnd now h = h)
   \<and> (\<not> list_all is_js_whitespace (value_input h) \<longrightarrow>
        todos (onSubmit rnd now h) = addTodo rnd now (trim (value_input h)) (todos h)
        \<and> trim (value_input h) \<noteq> []
        \<and> \<not> is_js_whitespace (hd (trim (value_input h)))
        \<and> \<not> is_js_whitespace (last (trim (value_input h))))"
proof (cases "list_all is_js_whitespace (value_input h)")
  case True
  then show ?thesis
    by (simp add: onSubmit_def trim_blank)
next
  case False
  from trim_not_blank [OF this] False show ?thesis
    by (simp add: onSubmit_def)
qed

theorem onSubmit_blank_witness:
  "onSubmit (js ''0.4fzyo82mvyr'') 1700000000000
     \<lparr>todos = [], value_input = [0x20, 0x09, 0xA0, 0x3000]\<rparr>
     = \<lparr>todos = [], value_input = [0x20, 0x09, 0xA0, 0x3000]\<rparr>
   \<and> onSubmit (js ''0.4fzyo82mvyr'') 1700000000000 \<lparr>todos = [], value_input = []\<rparr>
     = \<lparr>todos = [], value_input = []\<rparr>
   \<and> todos (onSubmit (js ''0.4fzyo82mvyr'') 1700000000000
        \<lparr>todos = [], value_input = js '' Buy milk ''\<rparr>)
     = addTodo (js ''0.4fzyo82mvyr'') 1700000000000 (js ''Buy milk'') []"
proof -
  have blank: "list_all is_js_whitespace
      (value_input \<lparr>todos = [], value_input = [0x20, 0x09, 0xA0, 0x3000]\<rparr>)"
    and empty: "list_all is_js_whitespace (value_input \<lparr>todos = [], value_input = []\<rparr>)"
    and filled: "\<not> list_all is_js_whitespace
      (value_input \<lparr>todos = [], value_input = js '' Buy milk ''\<rparr>)"
    and trimmed: "trim (js '' Buy milk '') = js ''Buy milk''"
    by (simp_all add: is_js_whitespace_def js_def trim_def)
  from blank onSubmit_blank
  have "onSubmit (js ''0.4fzyo82mvyr'') 1700000000000
     \<lparr>todos = [], value_input = [0x20, 0x09, 0xA0, 0x3000]\<rparr>
     = \<lparr>todos = [], value_input = [0x20, 0x09, 0xA0, 0x3000]\<rparr>"
    by blast
  moreover from empty onSubmit_blank
  have "onSubmit (js ''0.4fzyo82mvyr'') 1700000000000 \<lparr>todos = [], value_input = []\<rparr>
     = \<lparr>todos = [], value_input = []\<rparr>"
    by blast
  moreover from filled onSubmit_blank
    [of "\<lparr>todos = [], value_input = js '' Buy milk ''\<rparr>" "js ''0.4fzyo82mvyr''" 1700000000000]
  have "todos (onSubmit (js ''0.4fzyo82mvyr'') 1700000000000
        \<lparr>todos = [], value_input = js '' Buy milk ''\<rparr>)
     = addTodo (js ''0.4fzyo82mvyr'') 1700000000000
         (trim (value_input \<lparr>todos = [], value_input = js '' Buy milk ''\<rparr>))
         (todos \<lparr>todos = [], value_input = js '' Buy milk ''\<rparr>)"
    by blast
  ultimately show ?thesis
    using trimmed by simp
qed

text \<open>
  C10. When several items share an identifier, \<open>removeTodo\<close> removes all of them and
  keeps every other item, and \<open>toggleTodo\<close> flips \<open>completed\<close> at every position that
  holds the identifier. Such a list can come from the storage: \<open>load\<close> returns what was
  stored, duplicates included.
\<close>

theorem shared_id_all_affected:
  "i \<notin> id_todo ` set (removeTodo i L)
   \<and> (\<forall>t \<in> set L. id_todo t \<noteq> i \<longrightarrow> t \<in> set (removeTodo i L))
   \<and> length (toggleTodo i L) = length L
   \<and> (\<forall>k < length L. id_todo (L ! k) = i \<longrightarrow>
         toggleTodo i L ! k = (L ! k)\<lparr>completed := \<not> completed (L ! k)\<rparr>)
   \<and> load (persist L st) = Inr (map todo_json L)"
  by (simp add: toggleTodo_length toggleTodo_nth load_persist) (auto simp add: removeTodo_def)

theorem shared_id_all_affected_witness:
  "removeTodo (js ''a'')
     [\<lparr>id_todo = js ''a'', title = js ''A'', completed = False\<rparr>,
      \<lparr>id_todo = js ''b'', title = js ''B'', completed = False\<rparr>,
      \<lparr>id_todo = js ''a'', title = js ''C'', completed = True\<rparr>]
     = [\<lparr>id_todo = js ''b'', title = js ''B'', completed = False\<rparr>]
   \<and> toggleTodo (js ''a'')
     [\<lparr>id_todo = js ''a'', title = js ''A'', completed = False\<rparr>,
      \<lparr>id_todo = js ''b'', title = js ''B'', completed = False\<rparr>,
      \<lparr>id_todo = js ''a'', title = js ''C'', completed = True\<rparr>]
     = [\<lparr>id_todo = js ''a'', title = js ''A'', completed = True\<rparr>,
        \<lparr>id_todo = js ''b'', title = js ''B'', completed = False\<rparr>,
        \<lparr>id_todo = js ''a'', title = js ''C'', completed = False\<rparr>]"
  using shared_id_all_affected
    [of "js ''a''"
        "[\<lparr>id_todo = js ''a'', title = js ''A'', completed = False\<rparr>,
          \<lparr>id_todo = js ''b'', title = js ''B'', completed = False\<rparr>,
          \<lparr>id_todo = js ''a'', title = js ''C'', completed = True\<rparr>]" Map.empty]
  by (simp add: removeTodo_def toggleTodo_def js_def)

end
